theory Spec2Isabelle
  imports Main "HOL-Library.Multiset" "HOL-Library.Sublist" "HOL-Library.Log_Nat"
begin

section \<open>The diff analyzer of the /doi skill (src/doi/analyzer/summarize.ts)\<close>

text \<open>
  The analyzer is a set of pure functions over a \<open>GitDiff\<close> value.  The development
  below embeds them one by one, keeping the names and the branch order of the
  TypeScript source.  Three things the source takes from its platform are written out:

  \<^item> regular expressions: an abstract syntax for the fragment the two pattern tables
    use, and a matcher that returns every remainder a pattern can leave
    (\<open>RegExp.prototype.test\<close> succeeds iff some start position leaves a remainder);
  \<^item> numbers: a line count is a natural that is a binary64 value; sums and scores
    are binary64 values, modelled as the rationals they denote with every arithmetic
    result rounded to 53 significant bits, ties to even (exponent range unbounded,
    so overflow to Infinity and subnormal results are outside the model), and
    printed as \<open>Number.prototype.toString\<close> prints them;
  \<^item> \<open>Array.prototype.sort\<close>: a stable sort driven by the comparator's sign.

  A string is the list of its UTF-16 code units, which are taken below 256 (the
  Latin-1 range).
\<close>

subsection \<open>Regular expressions\<close>

datatype regex =
    Eps
  | Lit char
  | Dot
  | OneOf "char list"
  | Eol
  | Seq regex regex
  | Alt regex regex
  | Opt regex
  | Star regex

text \<open>A \<open>RegExp\<close> object: the pattern and its \<open>i\<close> flag.\<close>

type_synonym RegExp = "regex \<times> bool"

definition asciiLower :: string where
  "asciiLower = ''abcdefghijklmnopqrstuvwxyz''"

definition asciiUpper :: string where
  "asciiUpper = ''ABCDEFGHIJKLMNOPQRSTUVWXYZ''"

definition toUpperChar :: "char \<Rightarrow> char" where
  "toUpperChar c = (case map_of (zip asciiLower asciiUpper) c of Some u \<Rightarrow> u | None \<Rightarrow> c)"

text \<open>
  \<open>String.prototype.toLowerCase\<close> on one code unit below 256: the letters \<open>A\<close> to
  \<open>Z\<close> and the Latin-1 capitals \<open>0xC0\<close> to \<open>0xDE\<close> (the multiplication sign
  \<open>0xD7\<close> apart) move up by 32; nothing else changes.
\<close>

definition toLowerChar :: "char \<Rightarrow> char" where
  "toLowerChar c =
     (let n = (of_char c :: nat)
      in if (65 \<le> n \<and> n \<le> 90) \<or> (192 \<le> n \<and> n \<le> 222 \<and> n \<noteq> 215)
         then char_of (n + 32) else c)"

definition toLowerCase :: "string \<Rightarrow> string" where
  "toLowerCase s = map toLowerChar s"

text \<open>
  Under the \<open>i\<close> flag two code units match when their canonical forms agree.  The
  canonical form is the upper-case form, except that a code unit of 128 or more whose
  upper-case form is below 128, or is not a single code unit, stays as it is.  Every
  letter in the two pattern tables is ASCII, and no code unit of 128 or more has an
  ASCII canonical form, so a comparison with a pattern letter comes out the same when
  only the ASCII letters are folded, which is what \<open>toUpperChar\<close> does.
\<close>

definition canonicalize :: "bool \<Rightarrow> char \<Rightarrow> char" where
  "canonicalize ic c = (if ic then toUpperChar c else c)"

text \<open>\<open>.\<close> matches every character but a line terminator (no \<open>s\<close> flag is used).\<close>

definition lineTerminator :: "char \<Rightarrow> bool" where
  "lineTerminator c = (c = CHR 0x0A \<or> c = CHR 0x0D)"

text \<open>
  \<open>rx_rem ic r s\<close> lists what is left of \<open>s\<close> after each way of matching \<open>r\<close> at its
  start.  \<open>Eol\<close> is \<open>$\<close> without the \<open>m\<close> flag: the end of the input.  An iteration
  of \<open>Star\<close> that consumes nothing is dropped, as the ECMAScript matcher does.
\<close>

fun rx_rem :: "bool \<Rightarrow> regex \<Rightarrow> string \<Rightarrow> string list" where
  "rx_rem ic Eps s = [s]"
| "rx_rem ic (Lit c) s =
     (case s of [] \<Rightarrow> []
      | x # xs \<Rightarrow> if canonicalize ic x = canonicalize ic c then [xs] else [])"
| "rx_rem ic Dot s =
     (case s of [] \<Rightarrow> [] | x # xs \<Rightarrow> if lineTerminator x then [] else [xs])"
| "rx_rem ic (OneOf cs) s =
     (case s of [] \<Rightarrow> []
      | x # xs \<Rightarrow>
          if list_ex (\<lambda>c. canonicalize ic x = canonicalize ic c) cs then [xs] else [])"
| "rx_rem ic Eol s = (if s = [] then [s] else [])"
| "rx_rem ic (Seq r1 r2) s = concat (map (rx_rem ic r2) (rx_rem ic r1 s))"
| "rx_rem ic (Alt r1 r2) s = rx_rem ic r1 s @ rx_rem ic r2 s"
| "rx_rem ic (Opt r) s = rx_rem ic r s @ [s]"
| "rx_rem ic (Star r) s =
     concat (map (\<lambda>u. if length u < length s then rx_rem ic (Star r) u else [])
                 (rx_rem ic r s)) @ [s]"

fun tails :: "string \<Rightarrow> string list" where
  "tails [] = [[]]"
| "tails (x # xs) = (x # xs) # tails xs"

text \<open>\<open>pattern.test(s)\<close>: the pattern matches at some position of \<open>s\<close>.\<close>

definition rx_test :: "RegExp \<Rightarrow> string \<Rightarrow> bool" where
  "rx_test p s = list_ex (\<lambda>t. rx_rem (snd p) (fst p) t \<noteq> []) (tails s)"

text \<open>Shorthands for writing the pattern tables.\<close>

definition lit :: "string \<Rightarrow> regex" where
  "lit s = foldr (\<lambda>c r. Seq (Lit c) r) s Eps"

definition seqs :: "regex list \<Rightarrow> regex" where
  "seqs rs = foldr Seq rs Eps"

fun alts :: "regex list \<Rightarrow> regex" where
  "alts [] = OneOf []"
| "alts [r] = r"
| "alts (r # rs) = Alt r (alts rs)"

definition Plus :: "regex \<Rightarrow> regex" where
  "Plus r = Seq r (Star r)"

definition re :: "regex \<Rightarrow> RegExp" where
  "re r = (r, False)"

definition rei :: "regex \<Rightarrow> RegExp" where
  "rei r = (r, True)"

subsection \<open>Data model\<close>

text \<open>
  The interfaces live in \<open>types.ts\<close>; the records carry the fields the analyzer
  reads.  \<open>ChangeCategory\<close> and the change type are string-literal unions, at run time
  plain strings, and the source's \<open>switch\<close> statements have \<open>default\<close> branches for
  values outside the unions: both are strings here.  The fields of \<open>DiffStats\<close> and the
  file list of \<open>GitDiff\<close> are prefixed, because the source reuses the names
  \<open>linesAdded\<close>, \<open>linesRemoved\<close> and \<open>files\<close>.
\<close>

type_synonym ChangeCategory = string

record ChangedFile =
  path :: string
  changeType :: string
  linesAdded :: nat
  linesRemoved :: nat

record CategorizedChange =
  category :: ChangeCategory
  description :: string
  files :: "string list"

record DiffStats =
  statsLinesAdded :: nat
  statsLinesRemoved :: nat

record BranchCommit =
  message :: string

record GitContext =
  currentBranch :: string

record GitDiff =
  diffContext :: GitContext
  commits :: "BranchCommit list"
  diffFiles :: "ChangedFile list"
  stats :: DiffStats

record DiffSummary =
  overview :: string
  changes :: "CategorizedChange list"
  inferredIntent :: string
  keyFiles :: "string list"
  summaryStats :: DiffStats
  filesChanged :: "string list"

subsection \<open>Numbers\<close>

text \<open>
  A finite binary64 value is the rational it denotes.  \<open>roundDouble\<close> rounds a rational
  to 53 significant bits, ties to even, which is what IEEE 754 prescribes for the
  result of \<open>+\<close>, \<open>-\<close> and \<open>*\<close> and for reading a decimal literal.  A line count
  of the input is a natural that is a binary64 value (every natural below \<open>2^53\<close>
  is one).
\<close>

definition pow2 :: "int \<Rightarrow> rat" where
  "pow2 e = (if 0 \<le> e then 2 ^ nat e else 1 / 2 ^ nat (- e))"

text \<open>For \<open>q > 0\<close>, the exponent \<open>e\<close> with \<open>2^e \<le> q < 2^(e+1)\<close>.\<close>

definition binExponent :: "rat \<Rightarrow> int" where
  "binExponent q =
     (let (a, b) = quotient_of q; e0 = bitlen a - bitlen b
      in if pow2 e0 \<le> q then e0 else e0 - 1)"

definition roundTiesToEven :: "rat \<Rightarrow> int" where
  "roundTiesToEven m =
     (let f = \<lfloor>m\<rfloor>; d = m - of_int f
      in if d < 1 / 2 then f else if 1 / 2 < d then f + 1 else if even f then f else f + 1)"

definition roundDouble :: "rat \<Rightarrow> rat" where
  "roundDouble q =
     (if q = 0 then 0
      else (let u = pow2 (binExponent \<bar>q\<bar> - 52)
            in sgn q * of_int (roundTiesToEven (\<bar>q\<bar> / u)) * u))"

definition fadd :: "rat \<Rightarrow> rat \<Rightarrow> rat" where
  "fadd x y = roundDouble (x + y)"

definition fsub :: "rat \<Rightarrow> rat \<Rightarrow> rat" where
  "fsub x y = roundDouble (x - y)"

definition fmul :: "rat \<Rightarrow> rat \<Rightarrow> rat" where
  "fmul x y = roundDouble (x * y)"

text \<open>A decimal literal of the source denotes the binary64 value nearest to it.\<close>

definition numLit :: "rat \<Rightarrow> rat" where
  "numLit q = roundDouble q"

text \<open>The decimal digits of a natural.\<close>

function showNat :: "nat \<Rightarrow> string" where
  "showNat n =
     (if n < 10 then [''0123456789'' ! n]
      else showNat (n div 10) @ [''0123456789'' ! (n mod 10)])"
  by pat_completeness auto
termination
  by (relation "measure id") auto

declare showNat.simps [simp del]

text \<open>
  \<open>Number.prototype.toString\<close> for a binary64 value \<open>x \<ge> 0\<close> that is an integer, as
  a template literal prints it.  The digits are those of the decimal number with the
  fewest significant digits that rounds to \<open>x\<close>; of two such, the closer one, and the
  one with the even last digit when both are as close.  \<open>decimalCandidate x n0 k\<close>
  looks among the numbers of \<open>k\<close> significant digits next to \<open>x\<close>, where \<open>n0\<close> is the
  number of digits of \<open>x\<close>.  Up to 21 digits the number is printed in full, beyond
  that in exponent notation.  Below \<open>2^53\<close> the result is the digits of \<open>x\<close>.
\<close>

definition decimalCandidate :: "rat \<Rightarrow> nat \<Rightarrow> nat \<Rightarrow> nat option" where
  "decimalCandidate x n0 k =
     (let p = 10 ^ (n0 - k);
          lo = nat \<lfloor>x / of_nat p\<rfloor>;
          hi = nat \<lceil>x / of_nat p\<rceil>;
          okLo = (roundDouble (of_nat (lo * p)) = x);
          okHi = (roundDouble (of_nat (hi * p)) = x);
          dLo = x / of_nat p - of_nat lo;
          dHi = of_nat hi - x / of_nat p
      in if okLo \<and> okHi then
           (if dLo < dHi then Some (lo * p)
            else if dHi < dLo then Some (hi * p)
            else if even lo then Some (lo * p) else Some (hi * p))
         else if okLo then Some (lo * p)
         else if okHi then Some (hi * p)
         else None)"

fun shortestFrom :: "rat \<Rightarrow> nat \<Rightarrow> nat list \<Rightarrow> nat" where
  "shortestFrom x n0 [] = nat \<lfloor>x\<rfloor>"
| "shortestFrom x n0 (k # ks) =
     (case decimalCandidate x n0 k of Some v \<Rightarrow> v | None \<Rightarrow> shortestFrom x n0 ks)"

definition shortestDecimal :: "rat \<Rightarrow> nat" where
  "shortestDecimal x =
     (let n0 = length (showNat (nat \<lfloor>x\<rfloor>)) in shortestFrom x n0 [1..<Suc n0])"

definition stripTrailingZeros :: "string \<Rightarrow> string" where
  "stripTrailingZeros s = rev (dropWhile (\<lambda>c. c = CHR ''0'') (rev s))"

definition numberToString :: "rat \<Rightarrow> string" where
  "numberToString x =
     (let ds = showNat (shortestDecimal x)
      in if length ds \<le> 21 then ds
         else (let sig = stripTrailingZeros ds
               in take 1 sig @ (if length sig > 1 then ''.'' @ drop 1 sig else [])
                    @ ''e+'' @ showNat (length ds - 1)))"

subsection \<open>File pattern matchers\<close>

text \<open>
  \<open>FILE_PATTERNS\<close> in declaration order, which is the order \<open>Object.entries\<close>
  enumerates it in.
\<close>

definition FILE_PATTERNS :: "(ChangeCategory \<times> RegExp list) list" where
  "FILE_PATTERNS =
    [(''configuration'',
       [re (seqs [lit ''.config.'', alts [lit ''js'', lit ''ts'', lit ''json'', lit ''yaml'', lit ''yml''], Eol]),
        re (seqs [lit ''package.json'', Eol]),
        re (seqs [lit ''tsconfig'', Star Dot, lit ''.json'', Eol]),
        re (seqs [lit ''.env'', Opt (Seq (Lit CHR ''.'') (Plus Dot)), Eol]),
        rei (alts [lit ''webpack'', lit ''rollup'', lit ''vite'', lit ''esbuild'']),
        rei (alts [lit ''docker'', lit ''compose'']),
        re (lit ''.github/''),
        re (seqs [lit ''Makefile'', Eol]),
        re (seqs [lit ''.yml'', Eol]),
        re (seqs [lit ''.yaml'', Eol])]),
     (''testing'',
       [re (seqs [Lit CHR ''.'', alts [lit ''test'', lit ''spec''], Lit CHR ''.'',
                  alts [lit ''js'', lit ''ts'', lit ''jsx'', lit ''tsx''], Eol]),
        re (seqs [lit ''__'', alts [lit ''tests'', lit ''mocks''], lit ''__/'']),
        re (lit ''.test.''),
        re (lit ''.spec.''),
        re (lit ''test/''),
        re (lit ''tests/''),
        re (lit ''jest.config''),
        re (lit ''vitest.config'')]),
     (''documentation'',
       [re (seqs [lit ''.md'', Eol]),
        re (seqs [lit ''.mdx'', Eol]),
        re (seqs [lit ''doc'', Opt (Lit CHR ''s''), Lit CHR ''/'']),
        rei (lit ''README''),
        rei (lit ''CHANGELOG''),
        rei (lit ''LICENSE''),
        rei (lit ''CONTRIBUTING'')]),
     (''new-feature'', []),
     (''modified-logic'', []),
     (''refactoring'', []),
     (''deletion'', [])]"

text \<open>
  The two nested loops return at the first pattern that matches; \<open>None\<close> is the
  source's \<open>null\<close>.
\<close>

definition categorizeFileByPath :: "string \<Rightarrow> ChangeCategory option" where
  "categorizeFileByPath filePath =
     map_option fst
       (find (\<lambda>(category, patterns). list_ex (\<lambda>pattern. rx_test pattern filePath) patterns)
             FILE_PATTERNS)"

subsection \<open>Change categorization\<close>

text \<open>
  \<open>if (pathCategory)\<close> tests for a non-null, non-empty string; every key of the table
  is non-empty, so the test is on \<open>None\<close>.
\<close>

definition categorizeChange :: "ChangedFile \<Rightarrow> ChangeCategory" where
  "categorizeChange file =
     (case categorizeFileByPath (path file) of
        Some pathCategory \<Rightarrow> pathCategory
      | None \<Rightarrow>
          if changeType file = ''added'' then ''new-feature''
          else if changeType file = ''deleted'' then ''deletion''
          else if changeType file = ''renamed'' then ''refactoring''
          else ''modified-logic'')"

definition plural :: "nat \<Rightarrow> string" where
  "plural fileCount = (if fileCount > 1 then ''s'' else '''')"

definition someAdded :: "ChangedFile list \<Rightarrow> bool" where
  "someAdded fs = list_ex (\<lambda>f. changeType f = ''added'') fs"

text \<open>
  The two totals are sums of binary64 numbers, printed as numbers; \<open>fileCount\<close> is an
  array length, below \<open>2^32\<close>, whose print is its digits.
\<close>

definition generateCategoryDescription :: "ChangeCategory \<Rightarrow> ChangedFile list \<Rightarrow> string" where
  "generateCategoryDescription cat fs =
     (let fileCount = length fs;
          totalAdded = foldl (\<lambda>sum f. fadd sum (of_nat (linesAdded f))) 0 fs;
          totalRemoved = foldl (\<lambda>sum f. fadd sum (of_nat (linesRemoved f))) 0 fs
      in
      if cat = ''new-feature'' then
        ''Added '' @ showNat fileCount @ '' new file'' @ plural fileCount
          @ '' (+'' @ numberToString totalAdded @ '' lines)''
      else if cat = ''modified-logic'' then
        ''Modified logic in '' @ showNat fileCount @ '' file'' @ plural fileCount
          @ '' (+'' @ numberToString totalAdded @ ''/-'' @ numberToString totalRemoved @ '' lines)''
      else if cat = ''refactoring'' then
        ''Refactored/renamed '' @ showNat fileCount @ '' file'' @ plural fileCount
      else if cat = ''deletion'' then
        ''Removed '' @ showNat fileCount @ '' file'' @ plural fileCount
          @ '' (-'' @ numberToString totalRemoved @ '' lines)''
      else if cat = ''configuration'' then
        ''Updated configuration in '' @ showNat fileCount @ '' file'' @ plural fileCount
      else if cat = ''testing'' then
        (if fileCount > 1 then ''Tests'' else ''Test'') @ '' ''
          @ (if someAdded fs then ''added'' else ''modified'')
          @ '' (+'' @ numberToString totalAdded @ ''/-'' @ numberToString totalRemoved @ '' lines)''
      else if cat = ''documentation'' then
        ''Documentation '' @ (if someAdded fs then ''added'' else ''updated'')
      else
        ''Changed '' @ showNat fileCount @ '' file'' @ plural fileCount)"

text \<open>
  \<open>grouped\<close> is a \<open>Map\<close>: an association list in insertion order.  One turn of the
  loop creates the key with an empty array when it is new, then pushes the file.
\<close>

definition mapHas :: "('k \<times> 'v) list \<Rightarrow> 'k \<Rightarrow> bool" where
  "mapHas m k = (map_of m k \<noteq> None)"

fun mapSet :: "'k \<Rightarrow> 'v \<Rightarrow> ('k \<times> 'v) list \<Rightarrow> ('k \<times> 'v) list" where
  "mapSet k v [] = [(k, v)]"
| "mapSet k v (p # ps) = (if fst p = k then (k, v) # ps else p # mapSet k v ps)"

definition mapGet :: "('k \<times> 'v list) list \<Rightarrow> 'k \<Rightarrow> 'v list" where
  "mapGet m k = (case map_of m k of Some v \<Rightarrow> v | None \<Rightarrow> [])"

definition groupStep ::
  "(ChangeCategory \<times> ChangedFile list) list \<Rightarrow> ChangedFile
    \<Rightarrow> (ChangeCategory \<times> ChangedFile list) list" where
  "groupStep grouped file =
     (let cat = categorizeChange file;
          grouped1 = (if \<not> mapHas grouped cat then mapSet cat [] grouped else grouped)
      in mapSet cat (mapGet grouped1 cat @ [file]) grouped1)"

text \<open>
  \<open>Array.prototype.indexOf\<close> (\<open>-1\<close> when absent) and \<open>Array.prototype.sort\<close> with a
  comparator: a negative or zero result keeps the first argument in front.  The sort is
  stable, so for a consistent comparator every conforming engine returns what this
  insertion sort returns.
\<close>

fun indexOf :: "'a list \<Rightarrow> 'a \<Rightarrow> int" where
  "indexOf [] x = -1"
| "indexOf (y # ys) x =
     (if y = x then 0 else (let i = indexOf ys x in if i < 0 then -1 else i + 1))"

fun insertBy :: "('a \<Rightarrow> 'a \<Rightarrow> 'b::{linorder,zero}) \<Rightarrow> 'a \<Rightarrow> 'a list \<Rightarrow> 'a list" where
  "insertBy cmp x [] = [x]"
| "insertBy cmp x (y # ys) = (if cmp x y \<le> 0 then x # y # ys else y # insertBy cmp x ys)"

definition sortBy :: "('a \<Rightarrow> 'a \<Rightarrow> 'b::{linorder,zero}) \<Rightarrow> 'a list \<Rightarrow> 'a list" where
  "sortBy cmp xs = foldr (insertBy cmp) xs []"

definition categoryOrder :: "ChangeCategory list" where
  "categoryOrder =
     [''new-feature'', ''modified-logic'', ''refactoring'', ''deletion'',
      ''configuration'', ''testing'', ''documentation'']"

definition categorizeChanges :: "ChangedFile list \<Rightarrow> CategorizedChange list" where
  "categorizeChanges fs =
     (let grouped = foldl groupStep [] fs;
          changes = map (\<lambda>(cat, categoryFiles).
                      \<lparr>category = cat,
                       description = generateCategoryDescription cat categoryFiles,
                       files = map path categoryFiles\<rparr>) grouped
      in sortBy (\<lambda>a b. indexOf categoryOrder (category a) - indexOf categoryOrder (category b))
                changes)"

subsection \<open>Key file identification\<close>

definition sourceCodePattern :: RegExp where
  "sourceCodePattern =
     re (seqs [Lit CHR ''.'',
               alts [lit ''ts'', lit ''js'', lit ''tsx'', lit ''jsx'', lit ''py'', lit ''go'',
                     lit ''rs'', lit ''java'', lit ''cpp'', lit ''c''],
               Eol])"

definition testFilePattern :: RegExp where
  "testFilePattern = re (seqs [Lit CHR ''.'', alts [lit ''test'', lit ''spec''], Lit CHR ''.''])"

text \<open>The body of the \<open>map\<close> callback: the score of one file.\<close>

definition fileScore :: "ChangedFile \<Rightarrow> rat" where
  "fileScore file =
     (let score0 = fadd 0 (fadd (of_nat (linesAdded file)) (of_nat (linesRemoved file)));
          score1 = (if rx_test sourceCodePattern (path file)
                    then fmul score0 (numLit (15 / 10)) else score0);
          score2 = (if changeType file = ''added''
                    then fmul score1 (numLit (13 / 10)) else score1);
          score3 = (if rx_test testFilePattern (path file)
                    then fmul score2 (numLit (7 / 10)) else score2);
          score4 = (if categorizeFileByPath (path file) = Some ''configuration''
                    then fmul score3 (numLit (5 / 10)) else score3);
          score5 = (if categorizeFileByPath (path file) = Some ''documentation''
                    then fmul score4 (numLit (3 / 10)) else score4)
      in score5)"

text \<open>
  \<open>xs.slice(0, end)\<close> for an integral \<open>end\<close>: a negative \<open>end\<close> counts from the end
  of the array.
\<close>

definition slice0 :: "'a list \<Rightarrow> int \<Rightarrow> 'a list" where
  "slice0 xs end =
     (let len = int (length xs);
          final = (if end < 0 then max (len + end) 0 else min end len)
      in take (nat final) xs)"

text \<open>The optional parameter \<open>limit\<close> is \<open>None\<close> when the caller leaves it out.\<close>

definition identifyKeyFiles :: "ChangedFile list \<Rightarrow> int option \<Rightarrow> string list" where
  "identifyKeyFiles fs limit =
     (let lim = (case limit of None \<Rightarrow> 5 | Some l \<Rightarrow> l);
          scored = map (\<lambda>file. (file, fileScore file)) fs;
          sorted = sortBy (\<lambda>a b. fsub (snd b) (snd a)) scored
      in map (\<lambda>s. path (fst s)) (slice0 sorted lim))"

subsection \<open>Intent inference\<close>

definition delimiters :: string where
  "delimiters = ''/-_''"

definition INTENT_PATTERNS :: "(RegExp \<times> string) list" where
  "INTENT_PATTERNS =
    [(rei (seqs [lit ''feat'', Opt (lit ''ure''), OneOf delimiters]), ''add new functionality''),
     (rei (seqs [lit ''fix'', OneOf delimiters]), ''fix a bug or issue''),
     (rei (seqs [lit ''bug'', OneOf delimiters]), ''address a bug''),
     (rei (seqs [lit ''refactor'', OneOf delimiters]), ''improve code structure''),
     (rei (seqs [lit ''perf'', Opt (lit ''ormance''), OneOf delimiters]), ''improve performance''),
     (rei (seqs [lit ''doc'', Opt (Lit CHR ''s''), OneOf delimiters]), ''update documentation''),
     (rei (seqs [lit ''test'', OneOf delimiters]), ''add or improve tests''),
     (rei (seqs [lit ''chore'', OneOf delimiters]), ''perform maintenance tasks''),
     (rei (seqs [lit ''hotfix'', OneOf delimiters]), ''apply an urgent fix''),
     (rei (seqs [lit ''release'', OneOf delimiters]), ''prepare a release''),
     (rei (seqs [lit ''dep'', Opt (Lit CHR ''s''), OneOf delimiters]), ''update dependencies''),
     (rei (seqs [lit ''upgrade'', OneOf delimiters]), ''upgrade dependencies or tools''),
     (rei (seqs [lit ''migratio'', Opt (Lit CHR ''n''), OneOf delimiters]),
      ''perform a data or code migration'')]"

text \<open>
  \<open>s.split(/[\/\-_]/)\<close>: the separator matches one character, so the string is cut at
  every delimiter; the result is never empty.
\<close>

fun splitOn :: "(char \<Rightarrow> bool) \<Rightarrow> string \<Rightarrow> string list" where
  "splitOn d [] = [[]]"
| "splitOn d (c # cs) =
     (if d c then [] # splitOn d cs
      else (case splitOn d cs of [] \<Rightarrow> [[c]] | w # ws \<Rightarrow> (c # w) # ws))"

fun joinWith :: "string \<Rightarrow> string list \<Rightarrow> string" where
  "joinWith sep [] = []"
| "joinWith sep [x] = x"
| "joinWith sep (x # y # ys) = x @ sep @ joinWith sep (y # ys)"

text \<open>\<open>s.replace(/[-_]/g, ' ')\<close>.\<close>

definition replaceDashes :: "string \<Rightarrow> string" where
  "replaceDashes s = map (\<lambda>c. if c = CHR ''-'' \<or> c = CHR ''_'' then CHR '' '' else c) s"

definition inferIntent :: "GitDiff \<Rightarrow> string" where
  "inferIntent diff =
     (let branchName = currentBranch (diffContext diff);
          cs = commits diff
      in case find (\<lambda>(pattern, intent). rx_test pattern branchName) INTENT_PATTERNS of
           Some (pattern, intent) \<Rightarrow>
             (let parts = splitOn (\<lambda>c. c \<in> set delimiters) branchName;
                  descr = replaceDashes (joinWith '' '' (drop 1 parts))
              in if length descr > 0 then intent @ '': '' @ descr else intent)
         | None \<Rightarrow>
             if length cs > 0 then
               (let firstCommit = cs ! (length cs - 1)
                in ''Based on commits: '' @ message firstCommit)
             else
               (let categories = map category (categorizeChanges (diffFiles diff))
                in if ''new-feature'' \<in> set categories then
                     ''Add new functionality to the codebase''
                   else if ''deletion'' \<in> set categories then
                     ''Remove unused code or features''
                   else if ''refactoring'' \<in> set categories then
                     ''Improve code structure without changing behavior''
                   else if ''configuration'' \<in> set categories then
                     ''Update project configuration''
                   else ''Make changes to the codebase''))"

subsection \<open>Overview and summary\<close>

definition generateOverview :: "GitDiff \<Rightarrow> string" where
  "generateOverview diff =
     (let fileCount = length (diffFiles diff);
          intent = inferIntent diff;
          totalLines = statsLinesAdded (stats diff) + statsLinesRemoved (stats diff);
          sizeDescriptor =
            (if totalLines < 50 then ''small''
             else if totalLines < 200 then ''moderate''
             else if totalLines < 500 then ''substantial''
             else ''large'')
      in ''A '' @ sizeDescriptor @ '' change across '' @ showNat fileCount @ '' file''
           @ (if fileCount \<noteq> 1 then ''s'' else '''') @ '' to '' @ toLowerCase intent @ ''.'')"

definition generateDiffSummary :: "GitDiff \<Rightarrow> DiffSummary" where
  "generateDiffSummary diff =
     \<lparr>overview = generateOverview diff,
      changes = categorizeChanges (diffFiles diff),
      inferredIntent = inferIntent diff,
      keyFiles = identifyKeyFiles (diffFiles diff) None,
      summaryStats = stats diff,
      filesChanged = map path (diffFiles diff)\<rparr>"

subsection \<open>Auxiliary notions\<close>

text \<open>
  The files of one category, in input order, and the entry \<open>categorizeChanges\<close> builds
  for a category; the sort key the comparator of \<open>categorizeChanges\<close> induces.
\<close>

definition groupsOf :: "ChangedFile list \<Rightarrow> ChangeCategory \<Rightarrow> ChangedFile list" where
  "groupsOf fs c = filter (\<lambda>f. categorizeChange f = c) fs"

definition mkChange :: "ChangedFile list \<Rightarrow> ChangeCategory \<Rightarrow> CategorizedChange" where
  "mkChange fs c =
     \<lparr>category = c,
      description = generateCategoryDescription c (groupsOf fs c),
      files = map path (groupsOf fs c)\<rparr>"

definition catIndex :: "CategorizedChange \<Rightarrow> int" where
  "catIndex ch = indexOf categoryOrder (category ch)"

text \<open>
  The pattern list \<open>FILE_PATTERNS\<close> holds for a category, and whether one of its
  patterns matches a path.
\<close>

definition patternsOf :: "ChangeCategory \<Rightarrow> RegExp list" where
  "patternsOf c = (case map_of FILE_PATTERNS c of Some ps \<Rightarrow> ps | None \<Rightarrow> [])"

definition pathMatches :: "ChangeCategory \<Rightarrow> string \<Rightarrow> bool" where
  "pathMatches c p = list_ex (\<lambda>pattern. rx_test pattern p) (patternsOf c)"

text \<open>
  The score before any factor, and the factors \<open>identifyKeyFiles\<close> applies to a file, in
  the order of the source.
\<close>

definition baseScore :: "ChangedFile \<Rightarrow> rat" where
  "baseScore file = fadd 0 (fadd (of_nat (linesAdded file)) (of_nat (linesRemoved file)))"

definition applicableFactors :: "ChangedFile \<Rightarrow> rat list" where
  "applicableFactors file =
     (if rx_test sourceCodePattern (path file) then [numLit (15 / 10)] else [])
     @ (if changeType file = ''added'' then [numLit (13 / 10)] else [])
     @ (if rx_test testFilePattern (path file) then [numLit (7 / 10)] else [])
     @ (if categorizeFileByPath (path file) = Some ''configuration'' then [numLit (5 / 10)] else [])
     @ (if categorizeFileByPath (path file) = Some ''documentation'' then [numLit (3 / 10)] else [])"

text \<open>The number the size descriptor of \<open>generateOverview\<close> is chosen from.\<close>

definition totalLines :: "GitDiff \<Rightarrow> nat" where
  "totalLines diff = statsLinesAdded (stats diff) + statsLinesRemoved (stats diff)"

subsection \<open>Example inputs\<close>

text \<open>
  The two-file scenario of the specification, and two entries that carry the same path
  with different change types.
\<close>

definition scenarioFiles :: "ChangedFile list" where
  "scenarioFiles =
     [\<lparr>path = ''README.md'', changeType = ''modified'', linesAdded = 5, linesRemoved = 1\<rparr>,
      \<lparr>path = ''src/x.ts'', changeType = ''added'', linesAdded = 40, linesRemoved = 0\<rparr>]"

definition samePathFiles :: "ChangedFile list" where
  "samePathFiles =
     [\<lparr>path = ''src/a.ts'', changeType = ''added'', linesAdded = 1, linesRemoved = 0\<rparr>,
      \<lparr>path = ''src/a.ts'', changeType = ''deleted'', linesAdded = 0, linesRemoved = 1\<rparr>]"

text \<open>
  A diff on a branch no intent pattern matches, with two commits, newest first, and 60
  changed lines; a seven-line source file that is new.
\<close>

definition mainDiff :: GitDiff where
  "mainDiff =
     \<lparr>diffContext = \<lparr>currentBranch = ''main''\<rparr>,
      commits = [\<lparr>message = ''Polish the parser''\<rparr>, \<lparr>message = ''Start the parser''\<rparr>],
      diffFiles = [],
      stats = \<lparr>statsLinesAdded = 50, statsLinesRemoved = 10\<rparr>\<rparr>"

definition sevenLineFile :: ChangedFile where
  "sevenLineFile = \<lparr>path = ''x.ts'', changeType = ''added'', linesAdded = 7, linesRemoved = 0\<rparr>"

text \<open>Three modified source files with 3, 2 and 1 changed lines.\<close>

definition threeFiles :: "ChangedFile list" where
  "threeFiles =
     [\<lparr>path = ''a.ts'', changeType = ''modified'', linesAdded = 3, linesRemoved = 0\<rparr>,
      \<lparr>path = ''b.ts'', changeType = ''modified'', linesAdded = 2, linesRemoved = 0\<rparr>,
      \<lparr>path = ''c.ts'', changeType = ''modified'', linesAdded = 1, linesRemoved = 0\<rparr>]"

section \<open>Properties\<close>

subsection \<open>Grouping and sorting\<close>


lemma mapSet_keyed:
  "distinct ks \<Longrightarrow>
   mapSet k v (map (\<lambda>c. (c, h c)) ks) =
     (if k \<in> set ks then map (\<lambda>c. (c, (h(k := v)) c)) ks
      else map (\<lambda>c. (c, h c)) ks @ [(k, v)])"
  by (induction ks) auto

lemma map_of_keyed:
  "map_of (map (\<lambda>c. (c, h c)) ks) k = (if k \<in> set ks then Some (h k) else None)"
  by (induction ks) auto

lemma groupsOf_snoc:
  "groupsOf (fs @ [f]) = (groupsOf fs)(categorizeChange f := groupsOf fs (categorizeChange f) @ [f])"
  by (rule ext) (simp add: groupsOf_def)

lemma groupStep_keyed:
  assumes "distinct ks" and "set ks = categorizeChange ` set fs"
  shows "groupStep (map (\<lambda>c. (c, groupsOf fs c)) ks) f =
           map (\<lambda>c. (c, groupsOf (fs @ [f]) c))
               (if categorizeChange f \<in> set ks then ks else ks @ [categorizeChange f])"
proof -
  define k where "k = categorizeChange f"
  define h where "h = groupsOf fs"
  define G where "G = map (\<lambda>c. (c, h c)) ks"
  define ks' where "ks' = (if k \<in> set ks then ks else ks @ [k])"
  define G1 where "G1 = (if \<not> mapHas G k then mapSet k [] G else G)"
  have dist': "distinct ks'" and k_in: "k \<in> set ks'"
    using assms(1) by (simp_all add: ks'_def)
  have empty: "h k = []" if "k \<notin> set ks"
  proof -
    have "\<forall>x\<in>set fs. categorizeChange x \<noteq> k"
      using that assms(2) by (metis imageI)
    then show ?thesis by (simp add: h_def groupsOf_def filter_empty_conv)
  qed
  have has: "mapHas G k = (k \<in> set ks)"
    by (simp add: mapHas_def G_def map_of_keyed)
  have G1: "G1 = map (\<lambda>c. (c, h c)) ks'"
  proof (cases "k \<in> set ks")
    case True
    then show ?thesis unfolding G1_def has ks'_def by (simp add: G_def)
  next
    case False
    then show ?thesis
      using assms(1) empty unfolding G1_def has ks'_def by (simp add: G_def mapSet_keyed)
  qed
  have get: "mapGet G1 k = h k"
    using k_in by (simp add: mapGet_def G1 map_of_keyed)
  have "groupStep G f = mapSet k (mapGet G1 k @ [f]) G1"
    by (simp add: groupStep_def Let_def k_def G1_def)
  also have "\<dots> = map (\<lambda>c. (c, (h(k := h k @ [f])) c)) ks'"
    unfolding get using dist' k_in by (simp add: G1 mapSet_keyed)
  also have "h(k := h k @ [f]) = groupsOf (fs @ [f])"
    by (simp add: groupsOf_snoc h_def k_def)
  finally show ?thesis
    by (simp add: G_def h_def ks'_def k_def)
qed

lemma grouped_keyed:
  "\<exists>ks. distinct ks \<and> set ks = categorizeChange ` set fs \<and>
        foldl groupStep [] fs = map (\<lambda>c. (c, groupsOf fs c)) ks"
proof (induction fs rule: rev_induct)
  case Nil
  show ?case by (rule exI [of _ "[]"]) simp
next
  case (snoc f fs)
  then obtain ks where ks: "distinct ks" "set ks = categorizeChange ` set fs"
    "foldl groupStep [] fs = map (\<lambda>c. (c, groupsOf fs c)) ks" by blast
  let ?ks' = "if categorizeChange f \<in> set ks then ks else ks @ [categorizeChange f]"
  have "foldl groupStep [] (fs @ [f]) = map (\<lambda>c. (c, groupsOf (fs @ [f]) c)) ?ks'"
    using groupStep_keyed [OF ks(1,2)] ks(3) by simp
  moreover have "distinct ?ks'" using ks(1) by simp
  moreover have "set ?ks' = categorizeChange ` set (fs @ [f])" using ks(2) by auto
  ultimately show ?case by blast
qed


lemma insertBy_insort_key:
  assumes "\<And>x y. (cmp x y \<le> 0) = (key x \<le> key y)"
  shows "insertBy cmp x ys = insort_key key x ys"
  by (induction ys) (simp_all add: assms)

lemma sortBy_sort_key:
  assumes "\<And>x y. (cmp x y \<le> 0) = (key x \<le> key y)"
  shows "sortBy cmp xs = sort_key key xs"
proof -
  have "insertBy cmp = insort_key key"
    by (intro ext) (rule insertBy_insort_key [OF assms])
  then show ?thesis
    by (simp add: sortBy_def sort_key_def)
qed

lemma categorizeChanges_keyed:
  "\<exists>ks. distinct ks \<and> set ks = categorizeChange ` set fs \<and>
        categorizeChanges fs = sort_key catIndex (map (mkChange fs) ks)"
proof -
  obtain ks where ks: "distinct ks" "set ks = categorizeChange ` set fs"
    "foldl groupStep [] fs = map (\<lambda>c. (c, groupsOf fs c)) ks"
    using grouped_keyed by blast
  have cmp: "sortBy (\<lambda>a b. indexOf categoryOrder (category a) - indexOf categoryOrder (category b)) xs
             = sort_key catIndex xs" for xs
    by (rule sortBy_sort_key) (simp add: catIndex_def)
  have "categorizeChanges fs = sort_key catIndex (map (mkChange fs) ks)"
    unfolding categorizeChanges_def Let_def ks(3) cmp
    by (simp add: mkChange_def [abs_def] comp_def)
  with ks(1,2) show ?thesis by blast
qed

lemma category_mkChange [simp]: "category (mkChange fs c) = c"
  by (simp add: mkChange_def)

lemma files_mkChange [simp]: "files (mkChange fs c) = map path (groupsOf fs c)"
  by (simp add: mkChange_def)

lemma description_mkChange [simp]:
  "description (mkChange fs c) = generateCategoryDescription c (groupsOf fs c)"
  by (simp add: mkChange_def)

lemma sum_list_single:
  "distinct ks \<Longrightarrow>
   (\<Sum>c\<leftarrow>ks. if k = c then {#x#} else {#}) = (if k \<in> set ks then {#x#} else {#})"
  by (induction ks) auto

lemma mset_concat_map_cong:
  "mset xs = mset ys \<Longrightarrow> mset (concat (map f xs)) = mset (concat (map f ys))"
proof -
  have *: "mset (concat (map f zs)) = sum_mset (image_mset (\<lambda>x. mset (f x)) (mset zs))" for zs
    by (induction zs) auto
  show "mset xs = mset ys \<Longrightarrow> ?thesis"
    by (simp add: *)
qed

lemma sum_groups:
  "distinct ks \<Longrightarrow> g ` set fs \<subseteq> set ks \<Longrightarrow>
   (\<Sum>c\<leftarrow>ks. mset (map p (filter (\<lambda>f. g f = c) fs))) = mset (map p fs)"
proof (induction fs)
  case Nil
  then show ?case by (induction ks) auto
next
  case (Cons f fs)
  have "(\<Sum>c\<leftarrow>ks. mset (map p (filter (\<lambda>f. g f = c) (f # fs)))) =
        (\<Sum>c\<leftarrow>ks. (if g f = c then {#p f#} else {#}) + mset (map p (filter (\<lambda>f. g f = c) fs)))"
    by (rule arg_cong [where f = sum_list]) (rule map_cong, simp_all)
  also have "\<dots> = (\<Sum>c\<leftarrow>ks. if g f = c then {#p f#} else {#})
                   + (\<Sum>c\<leftarrow>ks. mset (map p (filter (\<lambda>f. g f = c) fs)))"
    by (simp add: sum_list_addf)
  also have "\<dots> = {#p f#} + mset (map p fs)"
    using Cons by (simp add: sum_list_single)
  finally show ?case by simp
qed

lemma files_multiset:
  "mset (concat (map files (categorizeChanges fs))) = mset (map path fs)"
proof -
  obtain ks where ks: "distinct ks" "set ks = categorizeChange ` set fs"
    "categorizeChanges fs = sort_key catIndex (map (mkChange fs) ks)"
    using categorizeChanges_keyed by blast
  have "mset (concat (map files (categorizeChanges fs)))
        = mset (concat (map files (map (mkChange fs) ks)))"
    unfolding ks(3) by (rule mset_concat_map_cong) simp
  also have "\<dots> = (\<Sum>c\<leftarrow>ks. mset (map path (filter (\<lambda>f. categorizeChange f = c) fs)))"
    by (simp add: mset_concat comp_def groupsOf_def del: mset_map)
  also have "\<dots> = mset (map path fs)"
    using ks(1,2) by (intro sum_groups) simp_all
  finally show ?thesis .
qed

lemma change_of_category:
  assumes "ch \<in> set (categorizeChanges fs)"
  shows "ch = mkChange fs (category ch)" and "category ch \<in> categorizeChange ` set fs"
proof -
  obtain ks where ks: "distinct ks" "set ks = categorizeChange ` set fs"
    "categorizeChanges fs = sort_key catIndex (map (mkChange fs) ks)"
    using categorizeChanges_keyed by blast
  from assms obtain c where c: "c \<in> set ks" "ch = mkChange fs c"
    by (auto simp: ks(3))
  then have "category ch = c" by simp
  with c ks(2) show "ch = mkChange fs (category ch)" and "category ch \<in> categorizeChange ` set fs"
    by simp_all
qed

lemma categories_of_changes:
  "distinct (map category (categorizeChanges fs))"
  "set (map category (categorizeChanges fs)) = categorizeChange ` set fs"
  "sorted (map catIndex (categorizeChanges fs))"
proof -
  obtain ks where ks: "distinct ks" "set ks = categorizeChange ` set fs"
    "categorizeChanges fs = sort_key catIndex (map (mkChange fs) ks)"
    using categorizeChanges_keyed by blast
  have m: "mset (map category (categorizeChanges fs)) = mset ks"
    unfolding ks(3) by (simp add: multiset.map_comp comp_def)
  show "distinct (map category (categorizeChanges fs))"
    using mset_eq_imp_distinct_iff [OF m] ks(1) by simp
  show "set (map category (categorizeChanges fs)) = categorizeChange ` set fs"
    using mset_eq_setD [OF m] ks(2) by simp
  show "sorted (map catIndex (categorizeChanges fs))"
    unfolding ks(3) by simp
qed

subsection \<open>Rounding keeps the sign\<close>

lemma pow2_powi: "pow2 e = 2 powi e"
  by (simp add: pow2_def power_int_def inverse_eq_divide power_one_over)

lemma pow2_pos: "0 < pow2 e"
  by (simp add: pow2_powi)

lemma pow2_mono: "e \<le> e' \<Longrightarrow> pow2 e \<le> pow2 e'"
  by (simp add: pow2_powi power_int_increasing)

lemma binExponent_lower:
  assumes "0 < q"
  shows "pow2 (binExponent q) \<le> q"
proof -
  obtain a b where ab: "quotient_of q = (a, b)" by (cases "quotient_of q")
  then have b: "0 < b" and q: "q = of_int a / of_int b"
    using quotient_of_denom_pos quotient_of_div by blast+
  with assms have a: "0 < a"
    by (simp add: zero_less_divide_iff)
  define e0 where "e0 = bitlen a - bitlen b"
  have la: "(2::rat) powi (bitlen a - 1) \<le> of_int a"
  proof -
    have "2 ^ nat (bitlen a - 1) \<le> a" using bitlen_bounds [OF a] by simp
    then have "(of_int (2 ^ nat (bitlen a - 1)) :: rat) \<le> of_int a"
      by (simp only: of_int_le_iff)
    moreover have "0 \<le> bitlen a - 1" using a bitlen_bounds [OF a]
      by (smt (verit) bitlen_eq_zero_iff bitlen_nonneg)
    ultimately show ?thesis by (simp add: power_int_def)
  qed
  have lb: "of_int b \<le> (2::rat) powi (bitlen b)"
  proof -
    have "b < 2 ^ nat (bitlen b)" using bitlen_bounds [OF b] by simp
    then have "(of_int b :: rat) \<le> of_int (2 ^ nat (bitlen b))"
      by (simp only: of_int_le_iff)
    then show ?thesis using bitlen_nonneg [of b] by (simp add: power_int_def)
  qed
  have "pow2 (e0 - 1) = 2 powi (bitlen a - 1) / 2 powi (bitlen b)"
    by (simp add: pow2_powi e0_def power_int_diff)
  also have "\<dots> \<le> of_int a / 2 powi (bitlen b)"
    using la by (simp add: divide_right_mono)
  also have "\<dots> \<le> of_int a / of_int b"
    using lb a b by (simp add: divide_left_mono)
  finally have low: "pow2 (e0 - 1) \<le> q" by (simp add: q)
  show ?thesis
    using low by (simp add: binExponent_def ab e0_def Let_def)
qed

lemma roundTiesToEven_ge: "\<lfloor>m\<rfloor> \<le> roundTiesToEven m"
  by (simp add: roundTiesToEven_def Let_def)

lemma roundDouble_pos:
  assumes "0 < q"
  shows "0 < roundDouble q"
proof -
  define u where "u = pow2 (binExponent q - 52)"
  have u: "0 < u" by (simp add: u_def pow2_pos)
  have "u \<le> pow2 (binExponent q)" unfolding u_def by (rule pow2_mono) simp
  also have "\<dots> \<le> q" by (rule binExponent_lower [OF assms])
  finally have "1 \<le> q / u" using u by (simp add: le_divide_eq)
  then have "1 \<le> \<lfloor>q / u\<rfloor>" by simp
  then have "1 \<le> roundTiesToEven (q / u)"
    using roundTiesToEven_ge [of "q / u"] by linarith
  then have "0 < (of_int (roundTiesToEven (q / u)) :: rat)" by simp
  then show ?thesis
    using assms u by (simp add: roundDouble_def Let_def u_def)
qed

lemma roundDouble_minus: "roundDouble (- q) = - roundDouble q"
  by (simp add: roundDouble_def Let_def)

lemma roundDouble_le_zero_iff: "roundDouble q \<le> 0 \<longleftrightarrow> q \<le> 0"
proof (cases "0 < q")
  case True
  then show ?thesis using roundDouble_pos [of q] by simp
next
  case False
  show ?thesis
  proof (cases "q = 0")
    case True
    then show ?thesis by (simp add: roundDouble_def)
  next
    case False
    with \<open>\<not> 0 < q\<close> have "0 < - q" by simp
    then have "0 < roundDouble (- q)" by (rule roundDouble_pos)
    then show ?thesis using \<open>\<not> 0 < q\<close> by (simp add: roundDouble_minus)
  qed
qed

lemma fsub_le_zero_iff: "fsub x y \<le> 0 \<longleftrightarrow> x \<le> y"
  by (simp add: fsub_def roundDouble_le_zero_iff)

subsection \<open>Ranking\<close>

lemma insort_key_map_commute:
  "insort_key k (g x) (map g xs) = map g (insort_key (\<lambda>y. k (g y)) x xs)"
  by (induction xs) simp_all

lemma sort_key_map_commute:
  "sort_key k (map g xs) = map g (sort_key (\<lambda>y. k (g y)) xs)"
  by (induction xs) (simp_all add: insort_key_map_commute)

lemma scored_sorted:
  "sortBy (\<lambda>a b. fsub (snd b) (snd a)) (map (\<lambda>file. (file, fileScore file)) fs)
   = map (\<lambda>file. (file, fileScore file)) (sort_key (\<lambda>f. - fileScore f) fs)"
proof -
  have "sortBy (\<lambda>a b. fsub (snd b) (snd a)) xs = sort_key (\<lambda>s. - snd s) xs"
    for xs :: "(ChangedFile \<times> rat) list"
    by (rule sortBy_sort_key) (simp add: fsub_le_zero_iff)
  then show ?thesis
    by (simp add: sort_key_map_commute)
qed

lemma slice0_map: "slice0 (map g xs) n = map g (slice0 xs n)"
  by (simp add: slice0_def Let_def take_map)

lemma identifyKeyFiles_ranked:
  "identifyKeyFiles fs limit =
     map path (slice0 (sort_key (\<lambda>f. - fileScore f) fs)
                      (case limit of None \<Rightarrow> 5 | Some l \<Rightarrow> l))"
  by (simp add: identifyKeyFiles_def Let_def scored_sorted slice0_map comp_def)

lemma length_slice0:
  "length (slice0 xs n) = (if 0 \<le> n then min (nat n) (length xs) else length xs - nat (- n))"
  by (auto simp: slice0_def Let_def)

lemma slice0_take: "\<exists>k. slice0 xs n = take k xs"
  by (auto simp: slice0_def Let_def)

lemma identifyKeyFiles_selection:
  "\<exists>sel. identifyKeyFiles fs limit = map path sel
     \<and> length sel =
         (let lim = (case limit of None \<Rightarrow> 5 | Some l \<Rightarrow> l)
          in if 0 \<le> lim then min (nat lim) (length fs) else length fs - nat (- lim))
     \<and> set sel \<subseteq> set fs
     \<and> sorted_wrt (\<lambda>a b. fileScore b \<le> fileScore a) sel
     \<and> (\<forall>k. prefix (filter (\<lambda>f. fileScore f = k) sel) (filter (\<lambda>f. fileScore f = k) fs))
     \<and> identifyKeyFiles fs None = identifyKeyFiles fs (Some 5)"
proof -
  define lim where "lim = (case limit of None \<Rightarrow> 5 | Some l \<Rightarrow> l)"
  define ranked where "ranked = sort_key (\<lambda>f. - fileScore f) fs"
  define sel where "sel = slice0 ranked lim"
  obtain k where k: "sel = take k ranked"
    using slice0_take [of ranked lim] by (auto simp: sel_def)
  have 1: "identifyKeyFiles fs limit = map path sel"
    by (simp add: identifyKeyFiles_ranked sel_def ranked_def lim_def)
  have 2: "length sel = (if 0 \<le> lim then min (nat lim) (length fs) else length fs - nat (- lim))"
    by (simp add: sel_def length_slice0 ranked_def)
  have 3: "set sel \<subseteq> set fs"
    using set_take_subset [of k ranked] by (simp add: k ranked_def)
  have "sorted (map (\<lambda>f. - fileScore f) ranked)"
    by (simp add: ranked_def)
  then have "sorted_wrt (\<lambda>a b. fileScore b \<le> fileScore a) ranked"
    by (simp add: sorted_map)
  then have 4: "sorted_wrt (\<lambda>a b. fileScore b \<le> fileScore a) sel"
    unfolding k by (rule sorted_wrt_take)
  have 5: "prefix (filter (\<lambda>f. fileScore f = s) sel) (filter (\<lambda>f. fileScore f = s) fs)" for s
  proof -
    have "filter (\<lambda>f. - fileScore f = - s) ranked = filter (\<lambda>f. - fileScore f = - s) fs"
      unfolding ranked_def by (rule sort_key_stable)
    then have "filter (\<lambda>f. fileScore f = s) ranked = filter (\<lambda>f. fileScore f = s) fs"
      by simp
    moreover have "prefix (filter (\<lambda>f. fileScore f = s) sel) (filter (\<lambda>f. fileScore f = s) ranked)"
      unfolding k by (intro filter_mono_prefix take_is_prefix)
    ultimately show ?thesis by simp
  qed
  have 6: "identifyKeyFiles fs None = identifyKeyFiles fs (Some 5)"
    by (simp add: identifyKeyFiles_def)
  show ?thesis
    using 1 2 3 4 5 6 unfolding lim_def Let_def by blast
qed

lemma threeFiles_top2: "identifyKeyFiles threeFiles (Some 2) = [''a.ts'', ''b.ts'']"
  by code_simp

subsection \<open>Lists and evaluated examples\<close>

lemma distinct_concat_disjoint:
  "distinct (concat xss) \<Longrightarrow> i < j \<Longrightarrow> j < length xss \<Longrightarrow> set (xss ! i) \<inter> set (xss ! j) = {}"
proof (induction xss arbitrary: i j)
  case Nil
  then show ?case by simp
next
  case (Cons xs xss)
  from Cons.prems(2) obtain j' where j: "j = Suc j'" by (cases j) auto
  show ?case
  proof (cases i)
    case 0
    have "xss ! j' \<in> set xss" using Cons.prems(3) j by simp
    then show ?thesis using Cons.prems(1) 0 j by auto
  next
    case (Suc i')
    then show ?thesis using Cons.IH [of i' j'] Cons.prems j by simp
  qed
qed

lemma scenario_changes:
  "categorizeChanges scenarioFiles =
     [\<lparr>category = ''new-feature'', description = ''Added 1 new file (+40 lines)'',
       files = [''src/x.ts'']\<rparr>,
      \<lparr>category = ''documentation'', description = ''Documentation updated'',
       files = [''README.md'']\<rparr>]"
  by code_simp

lemma samePath_changes:
  "categorizeChanges samePathFiles =
     [\<lparr>category = ''new-feature'', description = ''Added 1 new file (+1 lines)'',
       files = [''src/a.ts'']\<rparr>,
      \<lparr>category = ''deletion'', description = ''Removed 1 file (-1 lines)'',
       files = [''src/a.ts'']\<rparr>]"
  by code_simp

subsection \<open>The category of one file\<close>

lemma categorizeFileByPath_tiers:
  "categorizeFileByPath p =
     (if pathMatches ''configuration'' p then Some ''configuration''
      else if pathMatches ''testing'' p then Some ''testing''
      else if pathMatches ''documentation'' p then Some ''documentation''
      else None)"
  by (simp add: categorizeFileByPath_def pathMatches_def patternsOf_def FILE_PATTERNS_def)

lemma app_test_path:
  "\<not> pathMatches ''configuration'' ''src/app.test.ts''"
  "pathMatches ''testing'' ''src/app.test.ts''"
  by code_simp+

lemma map_indexOf_categoryOrder:
  "map (indexOf categoryOrder) categoryOrder = [0, 1, 2, 3, 4, 5, 6]"
  by (simp add: categoryOrder_def)

lemma categorizeFileByPath_cases:
  "categorizeFileByPath p = Some c \<Longrightarrow> c \<in> {''configuration'', ''testing'', ''documentation''}"
  by (auto simp: categorizeFileByPath_tiers split: if_splits)

lemma categorizeChange_in_order: "categorizeChange f \<in> set categoryOrder"
  using categorizeFileByPath_cases [of "path f"]
  by (auto simp: categorizeChange_def categoryOrder_def split: option.splits)

lemma categories_in_priority_order:
  "map category (categorizeChanges fs) =
     filter (\<lambda>c. c \<in> categorizeChange ` set fs) categoryOrder"
proof -
  let ?idx = "indexOf categoryOrder"
  let ?A = "map category (categorizeChanges fs)"
  let ?B = "filter (\<lambda>c. c \<in> categorizeChange ` set fs) categoryOrder"
  have inj: "inj_on ?idx (set categoryOrder)"
  proof -
    have "distinct (map ?idx categoryOrder)" by (simp add: map_indexOf_categoryOrder)
    then show ?thesis by (simp add: distinct_map)
  qed
  have setA: "set ?A = categorizeChange ` set fs" by (rule categories_of_changes)
  have sub: "categorizeChange ` set fs \<subseteq> set categoryOrder"
    using categorizeChange_in_order by auto
  have setB: "set ?B = categorizeChange ` set fs" using sub by auto
  have "sorted (map catIndex (categorizeChanges fs))" by (rule categories_of_changes)
  then have sA: "sorted (map ?idx ?A)" by (simp add: catIndex_def [abs_def] comp_def)
  have dA: "distinct (map ?idx ?A)"
    using categories_of_changes(1) [of fs] inj setA sub
    by (simp only: distinct_map) (meson inj_on_subset)
  have "sorted (map ?idx categoryOrder)" by (simp add: map_indexOf_categoryOrder)
  then have sB: "sorted (map ?idx ?B)" by (rule sorted_filter)
  have "distinct categoryOrder" by (simp add: categoryOrder_def)
  then have "distinct ?B" by simp
  then have dB: "distinct (map ?idx ?B)"
    using inj setB sub by (simp only: distinct_map) (meson inj_on_subset)
  have "set (map ?idx ?A) = ?idx ` set ?A" by (rule set_map)
  also have "\<dots> = ?idx ` set ?B" by (simp only: setA setB)
  also have "\<dots> = set (map ?idx ?B)" by (rule set_map [symmetric])
  finally have eq: "map ?idx ?A = map ?idx ?B"
    by (rule sorted_distinct_set_unique [OF sA dA sB dB])
  have injU: "inj_on ?idx (set ?A \<union> set ?B)"
    using inj setA setB sub by (metis inj_on_subset sup.idem)
  show ?thesis
    using inj_on_map_eq_map [OF injU] eq by blast
qed

lemma description_not_default:
  assumes "c \<in> set categoryOrder"
  shows "\<not> prefix ''Changed '' (generateCategoryDescription c l)"
  using assms
  by (auto simp: categoryOrder_def generateCategoryDescription_def Let_def)

subsection \<open>Intent patterns\<close>

lemma main_no_pattern:
  "\<forall>(pattern, intent) \<in> set INTENT_PATTERNS. \<not> rx_test pattern ''main''"
  by code_simp

lemma tails_suffix: "set (tails s) = {t. suffix t s}"
  by (induction s) (auto simp: suffix_Cons)

lemma rx_test_iff: "rx_test p s \<longleftrightarrow> (\<exists>t. suffix t s \<and> rx_rem (snd p) (fst p) t \<noteq> [])"
  by (auto simp: rx_test_def list_ex_iff tails_suffix)

lemma hotfix_rem:
  "rx_rem True (seqs [lit ''hotfix'', OneOf delimiters]) t \<noteq> [] \<Longrightarrow>
   rx_rem True (seqs [lit ''fix'', OneOf delimiters]) (drop 3 t) \<noteq> []"
  by (auto simp: seqs_def lit_def split: list.splits if_splits)

lemma hotfix_shadowed:
  assumes "rx_test (rei (seqs [lit ''hotfix'', OneOf delimiters])) s"
  shows "rx_test (rei (seqs [lit ''fix'', OneOf delimiters])) s"
proof -
  from assms obtain t where t: "suffix t s"
    "rx_rem True (seqs [lit ''hotfix'', OneOf delimiters]) t \<noteq> []"
    by (auto simp: rx_test_iff rei_def)
  have "suffix (drop 3 t) s"
    using t(1) suffix_drop suffix_order.trans by blast
  with hotfix_rem [OF t(2)] show ?thesis
    by (auto simp: rx_test_iff rei_def)
qed


lemma hotfix_never:
  "\<not> prefix ''apply an urgent fix'' (inferIntent diff)"
  using hotfix_shadowed [of "currentBranch (diffContext diff)"]
  by (auto simp: inferIntent_def Let_def INTENT_PATTERNS_def)

lemma hotfix_find:
  "find (\<lambda>(pattern, intent). rx_test pattern ''hotfix/urgent-patch'') INTENT_PATTERNS
   = Some (rei (seqs [lit ''fix'', OneOf delimiters]), ''fix a bug or issue'')"
  by code_simp

lemma hotfix_description:
  "replaceDashes (joinWith '' '' (drop 1 (splitOn (\<lambda>c. c \<in> set delimiters) ''hotfix/urgent-patch'')))
   = ''urgent patch''"
  by code_simp

subsection \<open>Scores as products\<close>

lemma fileScore_factors: "fileScore file = foldl fmul (baseScore file) (applicableFactors file)"
  by (simp add: fileScore_def baseScore_def applicableFactors_def Let_def)

lemma sevenLine_factors: "applicableFactors sevenLineFile = [numLit (15 / 10), numLit (13 / 10)]"
  by code_simp

lemma sevenLine_score: "fileScore sevenLineFile = 7684266864200909 / 562949953421312"
  by code_simp

lemma sevenLine_swapped:
  "foldl fmul (baseScore sevenLineFile) [numLit (13 / 10), numLit (15 / 10)]
   = 1921066716050227 / 140737488355328"
  by code_simp

section \<open>The claims\<close>

subsection \<open>C1: the categories partition the input\<close>

text \<open>
  Claim C1, as the code has it.  For every list of files, the per-category file lists
  of \<open>categorizeChanges\<close> together hold the input paths, each as often as it occurs in
  the input; no category occurs twice; the list of a category is the paths of the input
  files of that category, in input order.  When the input paths are pairwise distinct,
  no path is repeated anywhere in the output and the lists are pairwise disjoint.
\<close>

theorem C1_partition:
  "mset (concat (map files (categorizeChanges fs))) = mset (map path fs)
   \<and> distinct (map category (categorizeChanges fs))
   \<and> (\<forall>ch \<in> set (categorizeChanges fs).
         files ch = map path (filter (\<lambda>f. categorizeChange f = category ch) fs))
   \<and> (distinct (map path fs) \<longrightarrow>
         distinct (concat (map files (categorizeChanges fs)))
         \<and> (\<forall>i j. i < j \<and> j < length (categorizeChanges fs) \<longrightarrow>
               set (files (categorizeChanges fs ! i)) \<inter> set (files (categorizeChanges fs ! j)) = {}))"
proof -
  have 1: "mset (concat (map files (categorizeChanges fs))) = mset (map path fs)"
    by (rule files_multiset)
  have 2: "distinct (map category (categorizeChanges fs))"
    by (rule categories_of_changes)
  have 3: "files ch = map path (filter (\<lambda>f. categorizeChange f = category ch) fs)"
    if "ch \<in> set (categorizeChanges fs)" for ch
  proof -
    have "files ch = files (mkChange fs (category ch))"
      using change_of_category(1) [OF that] by simp
    then show ?thesis by (simp add: groupsOf_def)
  qed
  have 4: "distinct (concat (map files (categorizeChanges fs)))" if "distinct (map path fs)"
    using mset_eq_imp_distinct_iff [OF 1] that by simp
  have 5: "set (files (categorizeChanges fs ! i)) \<inter> set (files (categorizeChanges fs ! j)) = {}"
    if "distinct (map path fs)" "i < j" "j < length (categorizeChanges fs)" for i j
    using distinct_concat_disjoint [OF 4 [OF that(1)], of i j] that(2,3) by simp
  show ?thesis
    using 1 2 3 4 5 by blast
qed

text \<open>The scenario of the specification satisfies the hypotheses of C1.\<close>

theorem C1_partition_witness:
  "distinct (map path scenarioFiles)
   \<and> \<lparr>category = ''documentation'', description = ''Documentation updated'',
       files = [''README.md'']\<rparr> \<in> set (categorizeChanges scenarioFiles)
   \<and> mset (concat (map files (categorizeChanges scenarioFiles))) = mset (map path scenarioFiles)
   \<and> distinct (concat (map files (categorizeChanges scenarioFiles)))
   \<and> set (files (categorizeChanges scenarioFiles ! 0))
         \<inter> set (files (categorizeChanges scenarioFiles ! 1)) = {}"
proof -
  have d: "distinct (map path scenarioFiles)"
    by (simp add: scenarioFiles_def)
  have l: "(0::nat) < 1 \<and> 1 < length (categorizeChanges scenarioFiles)"
    by (simp add: scenario_changes)
  have m: "\<lparr>category = ''documentation'', description = ''Documentation updated'',
       files = [''README.md'']\<rparr> \<in> set (categorizeChanges scenarioFiles)"
    by (simp add: scenario_changes)
  show ?thesis
    using C1_partition [of scenarioFiles] d l m by blast
qed

text \<open>
  Without distinct input paths the lists need not be disjoint: an entry added and an
  entry deleted under the same path land in two categories, and the path is in both
  lists.
\<close>

theorem C1_counterexample:
  "map files (categorizeChanges samePathFiles) = [[''src/a.ts''], [''src/a.ts'']]
   \<and> \<not> distinct (concat (map files (categorizeChanges samePathFiles)))
   \<and> set (files (categorizeChanges samePathFiles ! 0))
        \<inter> set (files (categorizeChanges samePathFiles ! 1)) \<noteq> {}"
  by (simp add: samePath_changes)

subsection \<open>C2: key files\<close>

text \<open>
  Claim C2.  The limit is a count: a number \<open>\<ge> 0\<close>, or left out, which means 5.
  Then \<open>identifyKeyFiles files limit\<close> returns the paths of a selection \<open>sel\<close> of the
  input files with \<open>min limit (number of files)\<close> elements: every selected file is an
  input file, so every returned path is a path of the input; the scores do not
  increase along the selection; and files of equal score keep their input order (for
  each score, the selected files of that score are an initial part of the input files
  of that score).  A call without a limit is a call with limit 5.
\<close>

theorem C2_key_files:
  assumes "0 \<le> (case limit of None \<Rightarrow> 5 | Some l \<Rightarrow> l)"
  shows "\<exists>sel. identifyKeyFiles fs limit = map path sel
     \<and> int (length sel) = min (case limit of None \<Rightarrow> 5 | Some l \<Rightarrow> l) (int (length fs))
     \<and> set sel \<subseteq> set fs
     \<and> sorted_wrt (\<lambda>a b. fileScore b \<le> fileScore a) sel
     \<and> (\<forall>k. prefix (filter (\<lambda>f. fileScore f = k) sel) (filter (\<lambda>f. fileScore f = k) fs))
     \<and> int (length (identifyKeyFiles fs limit))
         = min (case limit of None \<Rightarrow> 5 | Some l \<Rightarrow> l) (int (length fs))
     \<and> set (identifyKeyFiles fs limit) \<subseteq> path ` set fs
     \<and> identifyKeyFiles fs None = identifyKeyFiles fs (Some 5)"
proof -
  define lim where "lim = (case limit of None \<Rightarrow> 5 | Some l \<Rightarrow> l)"
  have nonneg: "0 \<le> lim" using assms by (simp add: lim_def)
  obtain sel where sel:
    "identifyKeyFiles fs limit = map path sel"
    "length sel = (if 0 \<le> lim then min (nat lim) (length fs) else length fs - nat (- lim))"
    "set sel \<subseteq> set fs"
    "sorted_wrt (\<lambda>a b. fileScore b \<le> fileScore a) sel"
    "\<forall>k. prefix (filter (\<lambda>f. fileScore f = k) sel) (filter (\<lambda>f. fileScore f = k) fs)"
    using identifyKeyFiles_selection [of fs limit] unfolding lim_def Let_def by blast
  have len: "int (length sel) = min lim (int (length fs))"
    using nonneg sel(2) by simp
  have len': "int (length (identifyKeyFiles fs limit)) = min lim (int (length fs))"
    using len by (simp add: sel(1))
  have sub: "set (identifyKeyFiles fs limit) \<subseteq> path ` set fs"
    using sel(3) by (auto simp: sel(1))
  have dflt: "identifyKeyFiles fs None = identifyKeyFiles fs (Some 5)"
    by (simp add: identifyKeyFiles_def)
  show ?thesis
    using sel(1,3,4,5) len len' sub dflt unfolding lim_def by blast
qed

text \<open>Three files and limit 2: the hypothesis of C2 holds and two paths are returned.\<close>

theorem C2_key_files_witness:
  "(0::int) \<le> 2
   \<and> int (length (identifyKeyFiles threeFiles (Some 2))) = min 2 (int (length threeFiles))
   \<and> set (identifyKeyFiles threeFiles (Some 2)) \<subseteq> path ` set threeFiles
   \<and> identifyKeyFiles threeFiles (Some 2) = [''a.ts'', ''b.ts'']"
proof -
  have h: "(0::int) \<le> (case Some 2 of None \<Rightarrow> 5 | Some l \<Rightarrow> l)"
    by simp
  show ?thesis
    using C2_key_files [OF h, of threeFiles] threeFiles_top2 by auto
qed

subsection \<open>C3: hotfix branches\<close>

text \<open>
  Claim C3 asks that a branch whose first token is \<open>hotfix\<close> gets the intent
  \<open>apply an urgent fix\<close>.  The code does not do that.  The table is searched in order
  with unanchored patterns, and the \<open>fix\<close> pattern, which comes first, matches inside
  \<open>hotfix/\<close>: the branch \<open>hotfix/urgent-patch\<close> yields
  \<open>fix a bug or issue: urgent patch\<close>.  More than that, no diff at all makes
  \<open>inferIntent\<close> return a string that starts with \<open>apply an urgent fix\<close>: the
  \<open>hotfix\<close> entry of the table is dead.
\<close>

theorem C3_hotfix_branch:
  "inferIntent \<lparr>diffContext = \<lparr>currentBranch = ''hotfix/urgent-patch''\<rparr>,
                commits = cs, diffFiles = fs, stats = st\<rparr>
   = ''fix a bug or issue: urgent patch''
   \<and> \<not> prefix ''apply an urgent fix'' (inferIntent diff)"
proof -
  have b: "currentBranch (diffContext \<lparr>diffContext = \<lparr>currentBranch = ''hotfix/urgent-patch''\<rparr>,
                commits = cs, diffFiles = fs, stats = st\<rparr>) = ''hotfix/urgent-patch''"
    by simp
  have "inferIntent \<lparr>diffContext = \<lparr>currentBranch = ''hotfix/urgent-patch''\<rparr>,
                commits = cs, diffFiles = fs, stats = st\<rparr>
        = ''fix a bug or issue: urgent patch''"
    unfolding inferIntent_def Let_def b hotfix_find hotfix_description by simp
  then show ?thesis
    using hotfix_never by blast
qed

subsection \<open>C4: path patterns come before the change type\<close>

text \<open>
  Claim C4.  The category of a file is decided by its path first: the configuration
  patterns, then the testing patterns, then the documentation patterns, the first
  table entry with a matching pattern winning; the change type is consulted only when
  no pattern matches.  In particular \<open>src/app.test.ts\<close> with change type \<open>added\<close> is
  \<open>testing\<close>, not \<open>new-feature\<close>, whatever its line counts.
\<close>

theorem C4_path_precedence:
  "categorizeChange file =
     (if pathMatches ''configuration'' (path file) then ''configuration''
      else if pathMatches ''testing'' (path file) then ''testing''
      else if pathMatches ''documentation'' (path file) then ''documentation''
      else if changeType file = ''added'' then ''new-feature''
      else if changeType file = ''deleted'' then ''deletion''
      else if changeType file = ''renamed'' then ''refactoring''
      else ''modified-logic'')
   \<and> categorizeChange
         \<lparr>path = ''src/app.test.ts'', changeType = ''added'', linesAdded = a, linesRemoved = r\<rparr>
       = ''testing''
   \<and> categorizeChange
         \<lparr>path = ''src/app.test.ts'', changeType = ''added'', linesAdded = a, linesRemoved = r\<rparr>
       \<noteq> ''new-feature''"
  by (simp add: categorizeChange_def categorizeFileByPath_tiers app_test_path)

subsection \<open>C5: output order\<close>

text \<open>
  Claim C5.  The categories of the output are exactly the entries of the fixed priority
  list that some input file falls into, in the order of that list; so absent categories
  have no entry.  For the two-file scenario of the specification the output is the
  new-feature entry for \<open>src/x.ts\<close> followed by the documentation entry for
  \<open>README.md\<close>, with the descriptions given.
\<close>

theorem C5_priority_order:
  "map category (categorizeChanges fs) =
     filter (\<lambda>c. c \<in> categorizeChange ` set fs) categoryOrder
   \<and> categoryOrder =
       [''new-feature'', ''modified-logic'', ''refactoring'', ''deletion'',
        ''configuration'', ''testing'', ''documentation'']
   \<and> categorizeChanges
        [\<lparr>path = ''README.md'', changeType = ''modified'', linesAdded = 5, linesRemoved = 1\<rparr>,
         \<lparr>path = ''src/x.ts'', changeType = ''added'', linesAdded = 40, linesRemoved = 0\<rparr>]
       = [\<lparr>category = ''new-feature'', description = ''Added 1 new file (+40 lines)'',
           files = [''src/x.ts'']\<rparr>,
          \<lparr>category = ''documentation'', description = ''Documentation updated'',
           files = [''README.md'']\<rparr>]"
  using categories_in_priority_order [of fs] scenario_changes
  by (simp add: scenarioFiles_def categoryOrder_def)

subsection \<open>C6: the oldest commit\<close>

text \<open>
  Claim C6.  When no intent pattern matches the branch name and the commit list is not
  empty, \<open>inferIntent\<close> returns \<open>Based on commits: \<close> followed by the message of the
  last element of the commit list, the oldest commit of a list ordered newest first.
\<close>

theorem C6_oldest_commit:
  assumes "\<forall>(pattern, intent) \<in> set INTENT_PATTERNS.
             \<not> rx_test pattern (currentBranch (diffContext diff))"
    and "commits diff \<noteq> []"
  shows "inferIntent diff = ''Based on commits: '' @ message (last (commits diff))"
proof -
  have "find (\<lambda>(pattern, intent). rx_test pattern (currentBranch (diffContext diff)))
          INTENT_PATTERNS = None"
    using assms(1) by (auto simp: find_None_iff)
  then show ?thesis
    using assms(2) by (simp add: inferIntent_def Let_def last_conv_nth)
qed

text \<open>The branch \<open>main\<close> with two commits satisfies the hypotheses of C6.\<close>

theorem C6_oldest_commit_witness:
  "list_all (\<lambda>(pattern, intent). \<not> rx_test pattern (currentBranch (diffContext mainDiff)))
     INTENT_PATTERNS
   \<and> commits mainDiff \<noteq> []
   \<and> inferIntent mainDiff = ''Based on commits: Start the parser''"
proof -
  have h1: "\<forall>(pattern, intent) \<in> set INTENT_PATTERNS.
      \<not> rx_test pattern (currentBranch (diffContext mainDiff))"
    using main_no_pattern by (simp add: mainDiff_def)
  have h2: "commits mainDiff \<noteq> []"
    by (simp add: mainDiff_def)
  have "inferIntent mainDiff = ''Based on commits: '' @ message (last (commits mainDiff))"
    by (rule C6_oldest_commit [OF h1 h2])
  then have "inferIntent mainDiff = ''Based on commits: Start the parser''"
    by (simp add: mainDiff_def)
  with h1 h2 show ?thesis by (simp add: list_all_iff)
qed

subsection \<open>C7: size descriptor\<close>

text \<open>
  Claim C7.  With \<open>totalLines = stats.linesAdded + stats.linesRemoved\<close>, the overview
  opens with \<open>A small change\<close> exactly when \<open>totalLines < 50\<close>, with
  \<open>A moderate change\<close> exactly when \<open>50 \<le> totalLines < 200\<close>, with
  \<open>A substantial change\<close> exactly when \<open>200 \<le> totalLines < 500\<close>, and with
  \<open>A large change\<close> exactly when \<open>500 \<le> totalLines\<close>; so \<open>totalLines = 60\<close> gives
  \<open>moderate\<close>.
\<close>

theorem C7_size_descriptor:
  "(prefix ''A small change across '' (generateOverview diff) \<longleftrightarrow> totalLines diff < 50)
   \<and> (prefix ''A moderate change across '' (generateOverview diff)
        \<longleftrightarrow> 50 \<le> totalLines diff \<and> totalLines diff < 200)
   \<and> (prefix ''A substantial change across '' (generateOverview diff)
        \<longleftrightarrow> 200 \<le> totalLines diff \<and> totalLines diff < 500)
   \<and> (prefix ''A large change across '' (generateOverview diff) \<longleftrightarrow> 500 \<le> totalLines diff)
   \<and> (totalLines diff = 60 \<longrightarrow> prefix ''A moderate change across '' (generateOverview diff))"
  by (simp add: generateOverview_def totalLines_def Let_def)

text \<open>A diff with 50 added and 10 removed lines, to which the last part of C7 applies.\<close>

theorem C7_size_descriptor_witness:
  "totalLines mainDiff = 60 \<and> prefix ''A moderate change across '' (generateOverview mainDiff)"
proof -
  have t: "totalLines mainDiff = 60"
    by (simp add: totalLines_def mainDiff_def)
  show ?thesis
    using C7_size_descriptor [of mainDiff] t by blast
qed

subsection \<open>C8: the order of the factors\<close>

text \<open>
  Claim C8.  The score of a file is its base score multiplied by its applicable factors
  one after the other, each product rounded to binary64; and for some file the same
  factors applied in another order give a different score.  The file is a new
  seven-line \<open>x.ts\<close>: \<open>(7 * 1.5) * 1.3\<close> is \<open>7684266864200909 / 2^49\<close> and
  \<open>(7 * 1.3) * 1.5\<close> is \<open>1921066716050227 / 2^47\<close>, one unit in the last place
  apart.  (Over the rationals the order would not matter; the difference is one of
  rounding.)
\<close>

theorem C8_order_matters:
  "(\<forall>file. fileScore file = foldl fmul (baseScore file) (applicableFactors file))
   \<and> (\<exists>file factors. mset factors = mset (applicableFactors file)
         \<and> foldl fmul (baseScore file) factors \<noteq> fileScore file)"
proof -
  have "mset [numLit (13 / 10), numLit (15 / 10)] = mset (applicableFactors sevenLineFile)"
    unfolding sevenLine_factors by simp
  moreover have "foldl fmul (baseScore sevenLineFile) [numLit (13 / 10), numLit (15 / 10)]
      \<noteq> fileScore sevenLineFile"
    unfolding sevenLine_score sevenLine_swapped by simp
  ultimately show ?thesis
    using fileScore_factors by blast
qed

subsection \<open>C9: empty input\<close>

text \<open>
  Claim C9.  On the empty file list \<open>categorizeChanges\<close> returns the empty list, and
  \<open>identifyKeyFiles\<close> returns the empty list for every limit, given or left out.  Both
  are total functions, so no error is signalled.
\<close>

theorem C9_empty_input:
  "categorizeChanges [] = [] \<and> identifyKeyFiles [] limit = []"
  by (simp add: categorizeChanges_def identifyKeyFiles_def sortBy_def slice0_def)

subsection \<open>C10: the default description is never produced\<close>

text \<open>
  Claim C10.  Every entry \<open>categorizeChanges\<close> returns has one of the seven categories
  of the priority list, its description is the one \<open>generateCategoryDescription\<close> gives
  for that category and its files, and that description does not start with
  \<open>Changed\<close>, the opening of the fallback branch.
\<close>

theorem C10_default_unreachable:
  "\<forall>ch \<in> set (categorizeChanges fs).
     category ch \<in> set categoryOrder
     \<and> description ch =
         generateCategoryDescription (category ch)
           (filter (\<lambda>f. categorizeChange f = category ch) fs)
     \<and> \<not> prefix ''Changed '' (description ch)"
proof
  fix ch assume ch: "ch \<in> set (categorizeChanges fs)"
  have c: "category ch \<in> set categoryOrder"
    using change_of_category(2) [OF ch] categorizeChange_in_order by auto
  have "description ch = description (mkChange fs (category ch))"
    using change_of_category(1) [OF ch] by simp
  then have d: "description ch =
      generateCategoryDescription (category ch) (filter (\<lambda>f. categorizeChange f = category ch) fs)"
    by (simp add: groupsOf_def)
  show "category ch \<in> set categoryOrder
     \<and> description ch =
         generateCategoryDescription (category ch)
           (filter (\<lambda>f. categorizeChange f = category ch) fs)
     \<and> \<not> prefix ''Changed '' (description ch)"
    using c d description_not_default [OF c] by simp
qed

text \<open>An entry of the scenario's output, to which C10 applies.\<close>

theorem C10_default_unreachable_witness:
  "\<lparr>category = ''documentation'', description = ''Documentation updated'',
     files = [''README.md'']\<rparr> \<in> set (categorizeChanges scenarioFiles)
   \<and> ''documentation'' \<in> set categoryOrder
   \<and> \<not> prefix ''Changed '' ''Documentation updated''"
proof -
  have m: "\<lparr>category = ''documentation'', description = ''Documentation updated'',
       files = [''README.md'']\<rparr> \<in> set (categorizeChanges scenarioFiles)"
    by (simp add: scenario_changes)
  note r = C10_default_unreachable [of scenarioFiles, rule_format, OF m]
  from r have a: "category \<lparr>category = ''documentation'', description = ''Documentation updated'',
       files = [''README.md'']\<rparr> \<in> set categoryOrder"
    by (rule conjunct1)
  from r have b: "\<not> prefix ''Changed '' (description \<lparr>category = ''documentation'',
       description = ''Documentation updated'', files = [''README.md'']\<rparr>)"
    by (elim conjE)
  show ?thesis
    using m a b by simp
qed

end
